theory Spec2Isabelle
  imports Complex_Main "HOL-Library.Product_Lexorder" "HOL-Library.Multiset"
begin

section \<open>Errors\<close>

text \<open>
  The Python exceptions that the modelled functions can raise. A function that can raise
  returns \<open>py_error + 'a\<close>, with \<open>Inl\<close> for the exception.
\<close>

datatype py_error =
  ValueError | OverflowError | ZeroDivisionError | KeyError | TypeError | AttributeError

section \<open>core.py: the Fibonacci sequence\<close>

text \<open>
  \<^verbatim>\<open>
  def fib(n):
      if n < 0: raise ValueError("fib(n) requires n >= 0")
      if n <= 1: return n
      a, b = 0, 1
      for _ in range(n - 1):
          a, b = b, a + b
      return b
  \<close>
  Python integers are unbounded: \<open>int\<close>. The \<open>for\<close> loop runs \<open>n - 1\<close> times on the
  pair \<open>(a, b)\<close>.
\<close>

primrec fib_loop :: "nat \<Rightarrow> int \<times> int \<Rightarrow> int \<times> int" where
  "fib_loop 0 ab = ab"
| "fib_loop (Suc i) ab = fib_loop i (snd ab, fst ab + snd ab)"

definition fib :: "int \<Rightarrow> py_error + int" where
  "fib n =
     (if n < 0 then Inl ValueError
      else if n \<le> 1 then Inr n
      else Inr (snd (fib_loop (nat (n - 1)) (0, 1))))"

section \<open>analyzer.py: RepresentationDecomposer\<close>

text \<open>
  The dictionary returned by \<open>fibonacci_factors\<close>. The early return for \<open>n \<le> 0\<close> builds
  a dictionary without the key \<open>"exact"\<close>, so that field is optional: \<open>None\<close> is the
  absent key.
\<close>

record fib_factorization =
  ff_factors :: "int list"
  ff_product :: int
  ff_residual :: int
  ff_exact :: "bool option"

text \<open>
  The first loop of \<open>fibonacci_factors\<close> collects the Fibonacci numbers from \<open>fib(3)\<close>
  on that do not exceed \<open>n\<close>:
  \<^verbatim>\<open>
  while True:
      f = fib(k)
      if f > n: break
      if f not in seen:
          fibs.append(f); seen.add(f)
      k += 1
  \<close>
\<close>

lemma fib_loop_grows:
  "1 \<le> fst ab \<Longrightarrow> 1 \<le> snd ab \<Longrightarrow> snd ab + int i \<le> snd (fib_loop i ab)"
proof (induction i arbitrary: ab)
  case 0
  then show ?case by simp
next
  case (Suc i)
  have "snd (snd ab, fst ab + snd ab) + int i \<le> snd (fib_loop i (snd ab, fst ab + snd ab))"
    using Suc.prems by (intro Suc.IH) simp_all
  with Suc.prems show ?case by simp
qed

lemma fib_lower_bound:
  assumes "fib k = Inr f"
  shows "k - 1 \<le> f"
proof (cases "k \<le> 1")
  case True
  with assms show ?thesis by (auto simp: fib_def split: if_splits)
next
  case False
  then obtain i where i: "nat (k - 1) = Suc i"
    by (cases "nat (k - 1)") auto
  have "snd (1::int, 1::int) + int i \<le> snd (fib_loop i (1, 1))"
    by (intro fib_loop_grows) simp_all
  with assms False i show ?thesis
    by (auto simp: fib_def split: if_splits)
qed

function collect_fibs :: "int \<Rightarrow> int \<Rightarrow> int list \<Rightarrow> int set \<Rightarrow> py_error + int list" where
  "collect_fibs n k fibs seen =
     (case fib k of
        Inl e \<Rightarrow> Inl e
      | Inr f \<Rightarrow>
          if f > n then Inr fibs
          else if f \<notin> seen then collect_fibs n (k + 1) (fibs @ [f]) (insert f seen)
          else collect_fibs n (k + 1) fibs seen)"
  by pat_completeness auto
termination
proof (relation "measure (\<lambda>(n, k, fibs, seen). nat (n + 2 - k))")
  show "wf (measure (\<lambda>(n, k, fibs, seen). nat (n + 2 - k)))"
    by simp
next
  fix n k :: int and fibs :: "int list" and seen :: "int set" and f :: int
  assume "fib k = Inr f" and "\<not> n < f"
  then have "k \<le> n + 1"
    using fib_lower_bound [of k f] by simp
  then show "((n, k + 1, fibs @ [f], insert f seen), (n, k, fibs, seen))
               \<in> measure (\<lambda>(n, k, fibs, seen). nat (n + 2 - k))"
    and "((n, k + 1, fibs, seen), (n, k, fibs, seen))
               \<in> measure (\<lambda>(n, k, fibs, seen). nat (n + 2 - k))"
    by simp_all
qed

text \<open>
  The greedy division. The inner loop
  \<^verbatim>\<open>
  while remaining > 1 and remaining % f == 0:
      factors.append(f)
      remaining //= f
  \<close>
  does not end for \<open>f = 1\<close> and raises for \<open>f = 0\<close>, so it is a partial function whose
  result \<open>None\<close> is "does not return"; Python's \<open>%\<close> and \<open>//\<close> on integers are the
  flooring \<open>mod\<close> and \<open>div\<close> of HOL.
\<close>

partial_function (option) divide_out ::
  "int \<Rightarrow> int \<Rightarrow> int list \<Rightarrow> (py_error + int list \<times> int) option" where
  "divide_out f remaining factors =
     (if remaining > 1 then
        (if f = 0 then Some (Inl ZeroDivisionError)
         else if remaining mod f = 0 then divide_out f (remaining div f) (factors @ [f])
         else Some (Inr (factors, remaining)))
      else Some (Inr (factors, remaining)))"

declare divide_out.simps [code]

fun greedy :: "int list \<Rightarrow> int \<Rightarrow> int list \<Rightarrow> (py_error + int list \<times> int) option" where
  "greedy [] remaining factors = Some (Inr (factors, remaining))"
| "greedy (f # fs) remaining factors =
     (case divide_out f remaining factors of
        None \<Rightarrow> None
      | Some (Inl e) \<Rightarrow> Some (Inl e)
      | Some (Inr (factors', remaining')) \<Rightarrow> greedy fs remaining' factors')"

text \<open>
  \<^verbatim>\<open>
  def fibonacci_factors(n):
      if n <= 0:
          return {"factors": [], "product": 0, "residual": n}
      ... fibs collected as above ...
      fibs.sort(reverse=True)
      factors = []; remaining = n
      for f in fibs: ... the inner loop above ...
      factors.sort()
      product = 1
      for f in factors: product *= f
      return {"factors": factors, "product": product,
              "residual": n - product, "exact": product == n}
  \<close>
\<close>

definition fibonacci_factors :: "int \<Rightarrow> (py_error + fib_factorization) option" where
  "fibonacci_factors n =
     (if n \<le> 0 then
        Some (Inr \<lparr>ff_factors = [], ff_product = 0, ff_residual = n, ff_exact = None\<rparr>)
      else
        case collect_fibs n 3 [] {} of
          Inl e \<Rightarrow> Some (Inl e)
        | Inr fibs \<Rightarrow>
            (case greedy (rev (sort fibs)) n [] of
               None \<Rightarrow> None
             | Some (Inl e) \<Rightarrow> Some (Inl e)
             | Some (Inr (factors, remaining)) \<Rightarrow>
                 (let factors' = sort factors;
                      product = fold (\<lambda>f p. p * f) factors' 1
                  in Some (Inr \<lparr>ff_factors = factors', ff_product = product,
                                ff_residual = n - product, ff_exact = Some (product = n)\<rparr>))))"

text \<open>
  \<open>KNOWN_REPS\<close>: the nine known representations, each with its group and its form.
\<close>

definition KNOWN_REPS :: "int \<rightharpoonup> string \<times> string" where
  "KNOWN_REPS = map_of
     [(1, (''U(1)'', ''F(1) = 1'')),
      (3, (''SU(2)'', ''F(4) = 3'')),
      (8, (''SU(3)'', ''F(6) = 8'')),
      (12, (''SM gauge'', ''L(12) = 322 states'')),
      (24, (''SU(5) adj'', ''F(5)^2 - 1 = 24'')),
      (45, (''SO(10) adj'', ''F(4)^2 * F(5) = 45'')),
      (78, (''E6 adj'', ''45 + 16 + 16_bar + 1'')),
      (133, (''E7 adj'', ''133 = 7 * 19'')),
      (248, (''E8 adj'', ''F(6) * 31 = 248''))]"

record gut_info =
  gi_dimension :: int
  gi_group :: string
  gi_fibonacci_form :: "string option"
  gi_fibonacci_factors :: fib_factorization

definition gut_decomposition :: "int \<Rightarrow> (py_error + gut_info) option" where
  "gut_decomposition parent_dim =
     (case KNOWN_REPS parent_dim of
        Some info \<Rightarrow>
          (case fibonacci_factors parent_dim of
             None \<Rightarrow> None
           | Some (Inl e) \<Rightarrow> Some (Inl e)
           | Some (Inr ff) \<Rightarrow>
               Some (Inr \<lparr>gi_dimension = parent_dim, gi_group = fst info,
                          gi_fibonacci_form = Some (snd info), gi_fibonacci_factors = ff\<rparr>))
      | None \<Rightarrow>
          (case fibonacci_factors parent_dim of
             None \<Rightarrow> None
           | Some (Inl e) \<Rightarrow> Some (Inl e)
           | Some (Inr fib_info) \<Rightarrow>
               Some (Inr \<lparr>gi_dimension = parent_dim, gi_group = ''unknown'',
                          gi_fibonacci_form = None, gi_fibonacci_factors = fib_info\<rparr>)))"

text \<open>
  \<open>hierarchy_rank\<close> appends \<open>{"denominator": den, "score": score, **info}\<close> for each
  denominator: the fields of \<open>info\<close> extended by two. Reading
  \<open>info["fibonacci_factors"]["exact"]\<close> raises \<open>KeyError\<close> when the key is absent. The
  final \<open>ranked.sort(key=lambda r: (-r["score"], r["denominator"]))\<close> is a stable sort
  on pairs ordered lexicographically, as \<open>sort_key\<close> is.
\<close>

record ranked_entry = gut_info +
  rk_denominator :: int
  rk_score :: int

fun rank_loop :: "int list \<Rightarrow> ranked_entry list \<Rightarrow> (py_error + ranked_entry list) option" where
  "rank_loop [] ranked = Some (Inr ranked)"
| "rank_loop (den # dens) ranked =
     (case gut_decomposition den of
        None \<Rightarrow> None
      | Some (Inl e) \<Rightarrow> Some (Inl e)
      | Some (Inr info) \<Rightarrow>
          (case (if gi_group info \<noteq> ''unknown'' then Inr 3
                 else case ff_exact (gi_fibonacci_factors info) of
                        None \<Rightarrow> Inl KeyError
                      | Some True \<Rightarrow> Inr 2
                      | Some False \<Rightarrow> Inr 1) of
             Inl e \<Rightarrow> Some (Inl e)
           | Inr score \<Rightarrow>
               rank_loop dens
                 (ranked @ [gut_info.extend info
                              \<lparr>rk_denominator = den, rk_score = score\<rparr>])))"

definition hierarchy_rank :: "int list \<Rightarrow> (py_error + ranked_entry list) option" where
  "hierarchy_rank denominators =
     (case rank_loop denominators [] of
        None \<Rightarrow> None
      | Some (Inl e) \<Rightarrow> Some (Inl e)
      | Some (Inr ranked) \<Rightarrow>
          Some (Inr (sort_key (\<lambda>r. (- rk_score r, rk_denominator r)) ranked)))"

text \<open>
  The score that the specification gives a ranked record: 3 for a known group, 2 for an
  unknown group with an exact Fibonacci factorization, 1 otherwise.
\<close>

definition score_rule :: "ranked_entry \<Rightarrow> bool" where
  "score_rule r \<longleftrightarrow>
     rk_score r = (if rk_denominator r \<in> dom KNOWN_REPS then 3
                   else if ff_exact (gi_fibonacci_factors r) = Some True then 2 else 1)"

section \<open>Python floats\<close>

text \<open>
  A Python \<open>float\<close> is an IEEE double: a finite value, an infinity or a NaN. \<open>Fin r\<close>
  stands for the finite double of value \<open>r\<close>. Rounding to 53 bits is not modelled: a
  result inside the range of the doubles is kept as the real number it approximates. What
  is modelled is the range, because that is where Python's control flow depends on it:
  a product, sum or quotient of magnitude \<open>2^1024\<close> or more is an infinity, one of
  magnitude \<open>2^-1075\<close> or less is zero (\<open>2^-1074\<close> is the smallest positive double),
  \<open>/\<close> raises \<open>ZeroDivisionError\<close> on a zero divisor, and \<open>**\<close> raises
  \<open>OverflowError\<close> when its result leaves the range. Signed zeros are not
  distinguished.
\<close>

datatype py_float = Fin real | PInf | NInf | NaN

definition fl :: "real \<Rightarrow> py_float" where
  "fl r =
     (if 2 ^ 1024 \<le> r then PInf
      else if r \<le> - (2 ^ 1024) then NInf
      else if \<bar>r\<bar> \<le> 1 / 2 ^ 1075 then Fin 0
      else Fin r)"

fun py_neg :: "py_float \<Rightarrow> py_float" where
  "py_neg (Fin a) = Fin (- a)"
| "py_neg PInf = NInf"
| "py_neg NInf = PInf"
| "py_neg NaN = NaN"

fun py_abs :: "py_float \<Rightarrow> py_float" where
  "py_abs (Fin a) = Fin \<bar>a\<bar>"
| "py_abs PInf = PInf"
| "py_abs NInf = PInf"
| "py_abs NaN = NaN"

text \<open>An infinity times a finite value keeps or flips its sign, and is NaN at zero.\<close>

definition scale_inf :: "py_float \<Rightarrow> real \<Rightarrow> py_float" where
  "scale_inf i a = (if a = 0 then NaN else if 0 < a then i else py_neg i)"

fun py_mul :: "py_float \<Rightarrow> py_float \<Rightarrow> py_float" where
  "py_mul NaN y = NaN"
| "py_mul x NaN = NaN"
| "py_mul (Fin a) (Fin b) = fl (a * b)"
| "py_mul (Fin a) y = scale_inf y a"
| "py_mul x (Fin b) = scale_inf x b"
| "py_mul PInf PInf = PInf"
| "py_mul NInf NInf = PInf"
| "py_mul PInf NInf = NInf"
| "py_mul NInf PInf = NInf"

fun py_add :: "py_float \<Rightarrow> py_float \<Rightarrow> py_float" where
  "py_add NaN y = NaN"
| "py_add x NaN = NaN"
| "py_add (Fin a) (Fin b) = fl (a + b)"
| "py_add (Fin a) y = y"
| "py_add x (Fin b) = x"
| "py_add PInf PInf = PInf"
| "py_add NInf NInf = NInf"
| "py_add PInf NInf = NaN"
| "py_add NInf PInf = NaN"

definition py_sub :: "py_float \<Rightarrow> py_float \<Rightarrow> py_float" where
  "py_sub x y = py_add x (py_neg y)"

text \<open>
  \<open>x / y\<close> raises on a zero divisor before anything else; a finite value over an infinity
  is zero, and an infinity over an infinity is NaN.
\<close>

fun py_truediv :: "py_float \<Rightarrow> py_float \<Rightarrow> py_error + py_float" where
  "py_truediv x (Fin b) =
     (if b = 0 then Inl ZeroDivisionError
      else case x of
             Fin a \<Rightarrow> Inr (fl (a / b))
           | NaN \<Rightarrow> Inr NaN
           | i \<Rightarrow> Inr (scale_inf i b))"
| "py_truediv x NaN = Inr NaN"
| "py_truediv (Fin a) y = Inr (Fin 0)"
| "py_truediv x y = Inr NaN"

text \<open>Comparisons: every comparison with a NaN is false.\<close>

fun py_lt :: "py_float \<Rightarrow> py_float \<Rightarrow> bool" where
  "py_lt NaN y = False"
| "py_lt x NaN = False"
| "py_lt (Fin a) (Fin b) = (a < b)"
| "py_lt x PInf = (x \<noteq> PInf)"
| "py_lt NInf y = (y \<noteq> NInf)"
| "py_lt x y = False"

fun py_le :: "py_float \<Rightarrow> py_float \<Rightarrow> bool" where
  "py_le NaN y = False"
| "py_le x NaN = False"
| "py_le x y = (x = y \<or> py_lt x y)"

definition bind_err :: "py_error + 'a \<Rightarrow> ('a \<Rightarrow> py_error + 'b) \<Rightarrow> py_error + 'b" where
  "bind_err m f = (case m of Inl e \<Rightarrow> Inl e | Inr v \<Rightarrow> f v)"

section \<open>core.py: constants and transforms\<close>

text \<open>\<^verbatim>\<open>PHI = (1 + sqrt(5)) / 2\<close>\<close>

definition PHI :: real where
  "PHI = (1 + sqrt 5) / 2"

text \<open>
  \<^verbatim>\<open>
  def D(x):
      if x <= 0:
          raise ValueError("D(x) requires x > 0")
      return -log(x) / log(PHI)
  \<close>
  \<open>math.log\<close> of a finite positive double lies between \<open>-745\<close> and \<open>710\<close>, and
  \<open>log(PHI)\<close> is a constant near \<open>0.48\<close>, so the quotient of a finite positive input
  stays inside the range. \<open>log(inf)\<close> is \<open>inf\<close> and \<open>log(nan)\<close> is \<open>nan\<close>;
  \<open>nan <= 0\<close> is false.
\<close>

fun D :: "py_float \<Rightarrow> py_error + py_float" where
  "D (Fin x) = (if x \<le> 0 then Inl ValueError else Inr (Fin (- ln x / ln PHI)))"
| "D PInf = Inr NInf"
| "D NInf = Inl ValueError"
| "D NaN = Inr NaN"

text \<open>
  \<open>PHI ** d\<close>, the float power with base \<open>PHI > 1\<close>: an infinite exponent gives
  \<open>inf\<close> or \<open>0.0\<close>, a NaN exponent gives NaN, and a finite exponent raises
  \<open>OverflowError\<close> when the power leaves the range (an underflow is silently \<open>0.0\<close>).
\<close>

fun pow_PHI :: "py_float \<Rightarrow> py_error + py_float" where
  "pow_PHI (Fin d) =
     (if 2 ^ 1024 \<le> PHI powr d then Inl OverflowError
      else if PHI powr d \<le> 1 / 2 ^ 1075 then Inr (Fin 0)
      else Inr (Fin (PHI powr d)))"
| "pow_PHI PInf = Inr PInf"
| "pow_PHI NInf = Inr (Fin 0)"
| "pow_PHI NaN = Inr NaN"

text \<open>
  \<^verbatim>\<open>
  def x_from_D(d):
      return 1.0 / (PHI ** d)

  def Theta(x):
      return 2 * pi * x

  def Energy(x):
      return (PHI ** D(x)) * Theta(x)
  \<close>
\<close>

definition x_from_D :: "py_float \<Rightarrow> py_error + py_float" where
  "x_from_D d = bind_err (pow_PHI d) (\<lambda>p. py_truediv (Fin 1) p)"

definition Theta :: "py_float \<Rightarrow> py_float" where
  "Theta x = py_mul (Fin (2 * pi)) x"

definition Energy :: "py_float \<Rightarrow> py_error + py_float" where
  "Energy x =
     bind_err (D x) (\<lambda>d. bind_err (pow_PHI d) (\<lambda>p. Inr (py_mul p (Theta x))))"

section \<open>analyzer.py: ConsistencyChecker\<close>

text \<open>
  \<^verbatim>\<open>
  def d_space_closure(x, tolerance=1e-10):
      if x <= 0:
          return {"valid": False, "error": "x must be > 0"}
      d_x = D(x)
      d_inv = D(1.0 / x)
      residual = d_x + d_inv
      return {"valid": abs(residual) < tolerance,
              "D_x": d_x, "D_inv_x": d_inv, "residual": residual}
  \<close>
  The two shapes of the returned dictionary are the two constructors of the result.
\<close>

datatype closure_result =
    Closure_invalid string
  | Closure_checked (cl_valid: bool) (cl_D_x: py_float) (cl_D_inv_x: py_float)
      (cl_residual: py_float)

definition d_space_closure :: "py_float \<Rightarrow> py_float \<Rightarrow> py_error + closure_result" where
  "d_space_closure x tolerance =
     (if py_le x (Fin 0) then Inr (Closure_invalid ''x must be > 0'')
      else
        bind_err (D x) (\<lambda>d_x.
        bind_err (py_truediv (Fin 1) x) (\<lambda>inv_x.
        bind_err (D inv_x) (\<lambda>d_inv.
          let residual = py_add d_x d_inv
          in Inr (Closure_checked (py_lt (py_abs residual) tolerance) d_x d_inv residual)))))"

text \<open>
  \<^verbatim>\<open>
  def energy_conservation(x, tolerance=1e-10):
      if x <= 0:
          return {"valid": False, "error": "x must be > 0"}
      e = Energy(x)
      expected = 2 * pi
      residual = e - expected
      return {"valid": abs(residual) < tolerance,
              "energy": e, "expected": expected, "residual": residual}
  \<close>
\<close>

datatype energy_result =
    Energy_invalid string
  | Energy_checked (en_valid: bool) (en_energy: py_float) (en_expected: py_float)
      (en_residual: py_float)

definition energy_conservation :: "py_float \<Rightarrow> py_float \<Rightarrow> py_error + energy_result" where
  "energy_conservation x tolerance =
     (if py_le x (Fin 0) then Inr (Energy_invalid ''x must be > 0'')
      else
        bind_err (Energy x) (\<lambda>e.
          let expected = Fin (2 * pi);
              residual = py_sub e expected
          in Inr (Energy_checked (py_lt (py_abs residual) tolerance) e expected residual)))"

section \<open>analyzer.py: SumRuleValidator\<close>







text \<open>
  \<open>round(x, ndigits)\<close> on a float rounds to the nearest multiple of \<open>10^-ndigits\<close>,
  a tie going to the even multiple; here on the real number that the float stands for.
\<close>

definition round_half_even :: "real \<Rightarrow> int" where
  "round_half_even x =
     (let f = \<lfloor>x\<rfloor>; d = x - of_int f
      in if d < 1 / 2 then f
         else if 1 / 2 < d then f + 1
         else if even f then f else f + 1)"

definition py_round :: "real \<Rightarrow> nat \<Rightarrow> real" where
  "py_round x ndigits = of_int (round_half_even (x * 10 ^ ndigits)) / 10 ^ ndigits"


section \<open>adapters: the error marker in analyze\<close>

text \<open>
  The values that the dictionaries passed between \<open>ingest\<close>, \<open>analyze\<close> and \<open>report\<close>
  hold, and \<open>AnalysisResult\<close> of \<open>adapters/base.py\<close>:
  \<^verbatim>\<open>
  @dataclass
  class AnalysisResult:
      success: bool
      data: dict
      d_space_values: list[float]
      consistency_score: float
      hierarchy: list[dict]
      recommendations: list[str]
      metadata: dict = field(default_factory=dict)
  \<close>
  Python does not enforce the annotations: \<open>recommendations\<close> holds whatever object the
  dictionary has under \<open>"error"\<close>, and \<open>d_space_values\<close> whatever it has under
  \<open>"d_residuals"\<close>.
\<close>

datatype py_value =
    VNone
  | VBool bool
  | VInt int
  | VFloat py_float
  | VStr string
  | VList "py_value list"
  | VDict "(string \<times> py_value) list"

type_synonym py_dict = "string \<rightharpoonup> py_value"

record analysis_result =
  success :: bool
  data :: py_dict
  d_space_values :: py_value
  consistency_score :: py_float
  hierarchy :: "py_dict list"
  recommendations :: "py_value list"
  metadata :: py_dict

text \<open>
  \<open>d[key]\<close> raises \<open>KeyError\<close> on a missing key, \<open>len\<close> raises \<open>TypeError\<close> on
  an object without a length, and \<open>not x\<close> tests the truth value of \<open>x\<close>.
\<close>

definition getitem :: "(string \<rightharpoonup> 'v) \<Rightarrow> string \<Rightarrow> py_error + 'v" where
  "getitem d key = (case d key of None \<Rightarrow> Inl KeyError | Some v \<Rightarrow> Inr v)"

fun py_len :: "py_value \<Rightarrow> py_error + nat" where
  "py_len (VStr s) = Inr (length s)"
| "py_len (VList xs) = Inr (length xs)"
| "py_len (VDict kvs) = Inr (length kvs)"
| "py_len v = Inl TypeError"

fun truthy :: "py_value \<Rightarrow> bool" where
  "truthy VNone = False"
| "truthy (VBool b) = b"
| "truthy (VInt i) = (i \<noteq> 0)"
| "truthy (VFloat x) = (x \<noteq> Fin 0)"
| "truthy (VStr s) = (s \<noteq> [])"
| "truthy (VList xs) = (xs \<noteq> [])"
| "truthy (VDict kvs) = (kvs \<noteq> [])"

text \<open>
  \<^verbatim>\<open>
  def analyze(self, d_data):                      # CalibrationAdapter
      if "error" in d_data:
          return AnalysisResult(
              success=False, data=d_data, d_space_values=[],
              consistency_score=0.0, hierarchy=[],
              recommendations=[d_data["error"]])
      residuals = d_data["d_residuals"]
      raw = d_data.get("raw_readings", [])
      if len(residuals) < 2:
          return AnalysisResult(
              success=False, data=d_data, d_space_values=residuals,
              consistency_score=0.0, hierarchy=[],
              recommendations=["Need at least 2 valid readings"])
      ... statistics, sum rule, drift detection ...
  \<close>
  The statistics that follow the two guards are the argument \<open>drift_analysis\<close>: the
  code that is run on the dictionary when neither guard fires, and that may return a
  result or raise.
\<close>

definition CalibrationAdapter_analyze ::
  "(py_dict \<Rightarrow> py_error + analysis_result) \<Rightarrow> py_dict \<Rightarrow> py_error + analysis_result" where
  "CalibrationAdapter_analyze drift_analysis d_data =
     (case d_data ''error'' of
        Some message \<Rightarrow>
          Inr \<lparr>success = False, data = d_data, d_space_values = VList [],
               consistency_score = Fin 0, hierarchy = [],
               recommendations = [message], metadata = Map.empty\<rparr>
      | None \<Rightarrow>
          bind_err (getitem d_data ''d_residuals'') (\<lambda>residuals.
          bind_err (py_len residuals) (\<lambda>n.
            if n < 2 then
              Inr \<lparr>success = False, data = d_data, d_space_values = residuals,
                   consistency_score = Fin 0, hierarchy = [],
                   recommendations = [VStr ''Need at least 2 valid readings''],
                   metadata = Map.empty\<rparr>
            else drift_analysis d_data)))"

text \<open>
  \<^verbatim>\<open>
  def analyze(self, d_data):                      # SensorFusionAdapter
      if "error" in d_data:
          return AnalysisResult(... as above ...)
      sensor_data = d_data["sensor_data"]
      d_ref = d_data.get("d_ref")
      if not sensor_data:
          return AnalysisResult(
              success=False, data=d_data, d_space_values=[],
              consistency_score=0.0, hierarchy=[],
              recommendations=["No sensor data to fuse"])
      ... weighted fusion, quality ranking ...
  \<close>
\<close>

definition SensorFusionAdapter_analyze ::
  "(py_dict \<Rightarrow> py_error + analysis_result) \<Rightarrow> py_dict \<Rightarrow> py_error + analysis_result" where
  "SensorFusionAdapter_analyze fusion d_data =
     (case d_data ''error'' of
        Some message \<Rightarrow>
          Inr \<lparr>success = False, data = d_data, d_space_values = VList [],
               consistency_score = Fin 0, hierarchy = [],
               recommendations = [message], metadata = Map.empty\<rparr>
      | None \<Rightarrow>
          bind_err (getitem d_data ''sensor_data'') (\<lambda>sensor_data.
            if \<not> truthy sensor_data then
              Inr \<lparr>success = False, data = d_data, d_space_values = VList [],
                   consistency_score = Fin 0, hierarchy = [],
                   recommendations = [VStr ''No sensor data to fuse''],
                   metadata = Map.empty\<rparr>
            else fusion d_data))"

text \<open>
  \<^verbatim>\<open>
  def analyze(self, d_data):                      # PhotosynthesisAdapter
      if "error" in d_data:
          return AnalysisResult(... as above ...)
      mode = d_data["mode"]
      if mode == "cascade":
          return self._analyze_cascade(d_data)
      if mode == "mof_filter":
          return self._analyze_mof(d_data)
      if mode == "full_system":
          return self._analyze_full(d_data)
      return AnalysisResult(
          success=False, data=d_data, d_space_values=[],
          consistency_score=0.0, hierarchy=[],
          recommendations=[f"Unknown mode '{mode}'"])
  \<close>
  The three mode analyses and the formatting of a value in an f-string are arguments.
\<close>

record photosynthesis_modes =
  analyze_cascade :: "py_dict \<Rightarrow> py_error + analysis_result"
  analyze_mof :: "py_dict \<Rightarrow> py_error + analysis_result"
  analyze_full :: "py_dict \<Rightarrow> py_error + analysis_result"
  format_value :: "py_value \<Rightarrow> string"

definition PhotosynthesisAdapter_analyze ::
  "photosynthesis_modes \<Rightarrow> py_dict \<Rightarrow> py_error + analysis_result" where
  "PhotosynthesisAdapter_analyze modes d_data =
     (case d_data ''error'' of
        Some message \<Rightarrow>
          Inr \<lparr>success = False, data = d_data, d_space_values = VList [],
               consistency_score = Fin 0, hierarchy = [],
               recommendations = [message], metadata = Map.empty\<rparr>
      | None \<Rightarrow>
          bind_err (getitem d_data ''mode'') (\<lambda>mode.
            if mode = VStr ''cascade'' then analyze_cascade modes d_data
            else if mode = VStr ''mof_filter'' then analyze_mof modes d_data
            else if mode = VStr ''full_system'' then analyze_full modes d_data
            else
              Inr \<lparr>success = False, data = d_data, d_space_values = VList [],
                   consistency_score = Fin 0, hierarchy = [],
                   recommendations =
                     [VStr (''Unknown mode '' @ [CHR 0x27] @ format_value modes mode
                              @ [CHR 0x27])],
                   metadata = Map.empty\<rparr>))"

text \<open>
  The three variants of the adapter, each with the code its \<open>analyze\<close> runs behind the
  guards, and the dispatch of \<open>adapter.analyze(d_data)\<close> on the variant.
\<close>

datatype adapter =
    Calibration "py_dict \<Rightarrow> py_error + analysis_result"
  | Sensor_fusion "py_dict \<Rightarrow> py_error + analysis_result"
  | Photosynthesis photosynthesis_modes

fun analyze :: "adapter \<Rightarrow> py_dict \<Rightarrow> py_error + analysis_result" where
  "analyze (Calibration drift_analysis) = CalibrationAdapter_analyze drift_analysis"
| "analyze (Sensor_fusion fusion) = SensorFusionAdapter_analyze fusion"
| "analyze (Photosynthesis modes) = PhotosynthesisAdapter_analyze modes"

section \<open>constants_db.py: ConstantsDB\<close>

text \<open>
  A constant is a dictionary built by \<open>_entry\<close>, with strings and floats as values:
  \<^verbatim>\<open>
  def _entry(name, value, experimental, unit, sector, formula):
      if experimental != 0:
          ppm = abs(value - experimental) / abs(experimental) * 1e6
      else:
          ppm = 0.0
      return {"name": name, "value": value, "experimental": experimental,
              "unit": unit, "sector": sector, "formula": formula,
              "deviation_ppm": round(ppm, 1)}
  \<close>
  Strings and floats are immutable; the dictionaries are not.
\<close>

datatype const_value = CStr string | CFloat real

type_synonym const_dict = "string \<rightharpoonup> const_value"

definition entry ::
  "string \<Rightarrow> real \<Rightarrow> real \<Rightarrow> string \<Rightarrow> string \<Rightarrow> string \<Rightarrow> const_dict" where
  "entry name val experimental unit sector formula =
     (let ppm = (if experimental \<noteq> 0
                 then \<bar>val - experimental\<bar> / \<bar>experimental\<bar> * 10 ^ 6 else 0)
      in [''name'' \<mapsto> CStr name, ''value'' \<mapsto> CFloat val,
          ''experimental'' \<mapsto> CFloat experimental, ''unit'' \<mapsto> CStr unit,
          ''sector'' \<mapsto> CStr sector, ''formula'' \<mapsto> CStr formula,
          ''deviation_ppm'' \<mapsto> CFloat (py_round ppm 1)])"

text \<open>
  The dictionaries are objects: \<open>self._constants\<close> is a list of references to them, and
  a caller who holds a reference can change the dictionary behind it. The store maps each
  reference in use to the dictionary behind it; \<open>next_ref\<close> is the next unused reference.
\<close>

type_synonym ref = nat

record store =
  objs :: "ref \<rightharpoonup> const_dict"
  next_ref :: ref

text \<open>\<open>dict(c)\<close>: a new dictionary with the items of the one behind \<open>c\<close>.\<close>

definition dict_copy :: "ref \<Rightarrow> store \<Rightarrow> ref \<times> store" where
  "dict_copy c s =
     (next_ref s, s\<lparr>objs := (objs s)(next_ref s := objs s c), next_ref := Suc (next_ref s)\<rparr>)"

text \<open>\<open>[dict(c) for c in results]\<close>\<close>

fun copy_all :: "ref list \<Rightarrow> store \<Rightarrow> ref list \<times> store" where
  "copy_all [] s = ([], s)"
| "copy_all (c # cs) s =
     (case dict_copy c s of (r, s') \<Rightarrow>
        (case copy_all cs s' of (rs, s'') \<Rightarrow> (r # rs, s'')))"

text \<open>\<open>c[key]\<close> for the dictionary behind the reference \<open>c\<close>.\<close>

definition item :: "store \<Rightarrow> ref \<Rightarrow> string \<Rightarrow> py_error + const_value" where
  "item s c key = (case objs s c of None \<Rightarrow> Inl KeyError | Some d \<Rightarrow> getitem d key)"

text \<open>
  \<^verbatim>\<open>
  def get(self, name):
      for c in self._constants:
          if c["name"] == name:
              return dict(c)
      return None
  \<close>
\<close>

fun get :: "ref list \<Rightarrow> string \<Rightarrow> store \<Rightarrow> py_error + (ref option \<times> store)" where
  "get [] name s = Inr (None, s)"
| "get (c # cs) name s =
     bind_err (item s c ''name'') (\<lambda>v.
       if v = CStr name then (case dict_copy c s of (r, s') \<Rightarrow> Inr (Some r, s'))
       else get cs name s)"

text \<open>
  A list comprehension with a condition that can raise; \<open>str.lower\<close> on ASCII letters;
  \<open>q in s\<close> for strings.
\<close>

fun filter_err :: "('a \<Rightarrow> py_error + bool) \<Rightarrow> 'a list \<Rightarrow> py_error + 'a list" where
  "filter_err p [] = Inr []"
| "filter_err p (x # xs) =
     bind_err (p x) (\<lambda>b. bind_err (filter_err p xs) (\<lambda>ys. Inr (if b then x # ys else ys)))"

definition lower :: "string \<Rightarrow> string" where
  "lower s =
     map (\<lambda>c. if 65 \<le> (of_char c :: nat) \<and> (of_char c :: nat) \<le> 90
               then char_of (of_char c + 32 :: nat) else c) s"

fun contains :: "string \<Rightarrow> string \<Rightarrow> bool" where
  "contains q [] = (q = [])"
| "contains q (c # s) = (take (length q) (c # s) = q \<or> contains q s)"

text \<open>
  \<^verbatim>\<open>
  def search(self, sector=None, query=None):
      results = self._constants
      if sector:
          results = [c for c in results if c["sector"] == sector]
      if query:
          q = query.lower()
          results = [c for c in results if q in c["name"].lower()]
      return [dict(c) for c in results]
  \<close>
  \<open>None\<close> and the empty string are false. A float has no method \<open>lower\<close>.
\<close>

definition search ::
  "ref list \<Rightarrow> string option \<Rightarrow> string option \<Rightarrow> store \<Rightarrow> py_error + (ref list \<times> store)" where
  "search constants sector query s =
     bind_err
       (case sector of
          None \<Rightarrow> Inr constants
        | Some sec \<Rightarrow>
            if sec = [] then Inr constants
            else filter_err (\<lambda>c. bind_err (item s c ''sector'') (\<lambda>v. Inr (v = CStr sec)))
                   constants)
       (\<lambda>results.
     bind_err
       (case query of
          None \<Rightarrow> Inr results
        | Some qry \<Rightarrow>
            if qry = [] then Inr results
            else filter_err
                   (\<lambda>c. bind_err (item s c ''name'') (\<lambda>v.
                      case v of
                        CStr name \<Rightarrow> Inr (contains (lower qry) (lower name))
                      | CFloat x \<Rightarrow> Inl AttributeError))
                   results)
       (\<lambda>results. Inr (copy_all results s)))"

text \<open>
  \<^verbatim>\<open>
  def best_predictions(self, n=10):
      non_exact = [c for c in self._constants if c["deviation_ppm"] > 0]
      non_exact.sort(key=lambda c: c["deviation_ppm"])
      return [dict(c) for c in non_exact[:n]]
  \<close>
  A string compared with \<open>0\<close> raises \<open>TypeError\<close>. The sort is stable, and its keys
  are floats, because the filter has read them all. \<open>xs[:n]\<close> drops the last \<open>-n\<close>
  elements when \<open>n\<close> is negative.
\<close>

definition ppm_key :: "store \<Rightarrow> ref \<Rightarrow> real" where
  "ppm_key s c = (case item s c ''deviation_ppm'' of Inr (CFloat x) \<Rightarrow> x | _ \<Rightarrow> 0)"

definition slice_to :: "int \<Rightarrow> 'a list \<Rightarrow> 'a list" where
  "slice_to n xs = (if 0 \<le> n then take (nat n) xs else take (nat (int (length xs) + n)) xs)"

definition best_predictions ::
  "ref list \<Rightarrow> int \<Rightarrow> store \<Rightarrow> py_error + (ref list \<times> store)" where
  "best_predictions constants n s =
     bind_err
       (filter_err
          (\<lambda>c. bind_err (item s c ''deviation_ppm'') (\<lambda>v.
             case v of CFloat x \<Rightarrow> Inr (0 < x) | CStr t \<Rightarrow> Inl TypeError))
          constants)
       (\<lambda>non_exact. Inr (copy_all (slice_to n (sort_key (ppm_key s) non_exact)) s))"

text \<open>The three queries, and what a query returns: one optional record, or a list.\<close>

datatype query =
    Get string
  | Search "string option" "string option"
  | Best_predictions int

datatype 'r answer = One "'r option" | Many "'r list"

fun run_query :: "ref list \<Rightarrow> query \<Rightarrow> store \<Rightarrow> py_error + (ref answer \<times> store)" where
  "run_query constants (Get name) s =
     bind_err (get constants name s) (\<lambda>(r, s'). Inr (One r, s'))"
| "run_query constants (Search sector qry) s =
     bind_err (search constants sector qry s) (\<lambda>(rs, s'). Inr (Many rs, s'))"
| "run_query constants (Best_predictions n) s =
     bind_err (best_predictions constants n s) (\<lambda>(rs, s'). Inr (Many rs, s'))"

text \<open>
  A session of a caller with the table behind \<open>constants\<close>: the caller runs queries, keeps
  the references they return, and changes the dictionaries behind references it was given
  (sets or deletes keys: any dictionary may result). The state of a session is the store
  and the set of references returned so far.
\<close>

inductive session :: "ref list \<Rightarrow> store \<times> ref set \<Rightarrow> store \<times> ref set \<Rightarrow> bool"
  for constants :: "ref list" where
    session_start: "session constants st st"
  | session_query:
      "session constants st (s, given) \<Longrightarrow> run_query constants q s = Inr (a, s')
         \<Longrightarrow> session constants st (s', given \<union> set_answer a)"
  | session_mutate:
      "session constants st (s, given) \<Longrightarrow> r \<in> given
         \<Longrightarrow> session constants st (s\<lparr>objs := (objs s)(r \<mapsto> d)\<rparr>, given)"

text \<open>What a query returned, read in the store it returned: the dictionaries.\<close>

definition returned :: "py_error + (ref answer \<times> store) \<Rightarrow> py_error + const_dict option answer" where
  "returned res = map_sum id (\<lambda>(a, s'). map_answer (objs s') a) res"

text \<open>
  For the proofs, each query is split in two: the choice of stored records, which only
  reads the table, and the copying of the chosen records.
\<close>

fun get_choice :: "ref list \<Rightarrow> string \<Rightarrow> store \<Rightarrow> py_error + ref option" where
  "get_choice [] name s = Inr None"
| "get_choice (c # cs) name s =
     bind_err (item s c ''name'') (\<lambda>v.
       if v = CStr name then Inr (Some c) else get_choice cs name s)"

definition search_choice ::
  "ref list \<Rightarrow> string option \<Rightarrow> string option \<Rightarrow> store \<Rightarrow> py_error + ref list" where
  "search_choice constants sector query s =
     bind_err
       (case sector of
          None \<Rightarrow> Inr constants
        | Some sec \<Rightarrow>
            if sec = [] then Inr constants
            else filter_err (\<lambda>c. bind_err (item s c ''sector'') (\<lambda>v. Inr (v = CStr sec)))
                   constants)
       (\<lambda>results.
          case query of
            None \<Rightarrow> Inr results
          | Some qry \<Rightarrow>
              if qry = [] then Inr results
              else filter_err
                     (\<lambda>c. bind_err (item s c ''name'') (\<lambda>v.
                        case v of
                          CStr name \<Rightarrow> Inr (contains (lower qry) (lower name))
                        | CFloat x \<Rightarrow> Inl AttributeError))
                     results)"

definition best_choice :: "ref list \<Rightarrow> int \<Rightarrow> store \<Rightarrow> py_error + ref list" where
  "best_choice constants n s =
     bind_err
       (filter_err
          (\<lambda>c. bind_err (item s c ''deviation_ppm'') (\<lambda>v.
             case v of CFloat x \<Rightarrow> Inr (0 < x) | CStr t \<Rightarrow> Inl TypeError))
          constants)
       (\<lambda>non_exact. Inr (slice_to n (sort_key (ppm_key s) non_exact)))"

fun choice :: "ref list \<Rightarrow> query \<Rightarrow> store \<Rightarrow> py_error + ref answer" where
  "choice constants (Get name) s = map_sum id One (get_choice constants name s)"
| "choice constants (Search sector qry) s =
     map_sum id Many (search_choice constants sector qry s)"
| "choice constants (Best_predictions n) s = map_sum id Many (best_choice constants n s)"

fun copy_answer :: "ref answer \<Rightarrow> store \<Rightarrow> ref answer \<times> store" where
  "copy_answer (One None) s = (One None, s)"
| "copy_answer (One (Some c)) s = (case dict_copy c s of (r, s') \<Rightarrow> (One (Some r), s'))"
| "copy_answer (Many cs) s = (case copy_all cs s of (rs, s') \<Rightarrow> (Many rs, s'))"

text \<open>Two stores agree on the table when the stored records are the same in both.\<close>

definition agree :: "ref list \<Rightarrow> store \<Rightarrow> store \<Rightarrow> bool" where
  "agree cs s t \<longleftrightarrow> (\<forall>c\<in>set cs. objs s c = objs t c)"

text \<open>
  What a session keeps true of its state: the table is as it was in the store \<open>s0\<close>, and
  every reference the caller was given is in use and is not a reference of the table.
\<close>

definition table_kept :: "ref list \<Rightarrow> store \<Rightarrow> store \<times> ref set \<Rightarrow> bool" where
  "table_kept cs s0 st \<longleftrightarrow>
     agree cs s0 (fst st) \<and> next_ref s0 \<le> next_ref (fst st)
     \<and> (\<forall>r\<in>snd st. r \<notin> set cs \<and> r < next_ref (fst st))"

text \<open>
  Four of the records that \<open>_build_db\<close> creates, as a store with the references
  \<open>0\<close> to \<open>3\<close>; the same store after \<open>get("B1")\<close> has returned a copy under the
  reference \<open>4\<close>; and after the caller has overwritten that copy.
\<close>

definition table_excerpt :: store where
  "table_excerpt =
     \<lparr>objs =
        [0 \<mapsto> entry ''sin2_theta_13'' (1 / 45) (2203 / 100000) '''' ''mixing''
                ''1/45 (SO(10) adjoint)'',
         1 \<mapsto> entry ''alpha_GUT'' (1 / 25) (4 / 100) '''' ''gut'' ''1/F(5)^2 = 1/25'',
         2 \<mapsto> entry ''sin2_theta_W_GUT'' (3 / 8) (375 / 1000) '''' ''gut'' ''F(4)/F(6) = 3/8'',
         3 \<mapsto> entry ''B1'' 27 27 '''' ''core'' ''BRAHIM_NUMBERS[0]''],
      next_ref = 4\<rparr>"

definition excerpt_after_get :: store where
  "excerpt_after_get = snd (dict_copy 3 table_excerpt)"

definition excerpt_after_change :: store where
  "excerpt_after_change =
     excerpt_after_get\<lparr>objs := (objs excerpt_after_get)(4 \<mapsto> [''name'' \<mapsto> CStr ''B2''])\<rparr>"

section \<open>Verified properties\<close>

subsection \<open>RepresentationDecomposer\<close>

lemma fold_mult_prod_list: "fold (\<lambda>f p. p * f) xs (a::int) = a * prod_list xs"
  by (induction xs arbitrary: a) (simp_all add: mult.assoc)

lemma fib_from_three: "3 \<le> k \<Longrightarrow> \<exists>f. fib k = Inr f \<and> 2 \<le> f"
  using fib_lower_bound [of k] by (auto simp: fib_def)

lemma collect_fibs_returns:
  "3 \<le> k \<Longrightarrow> \<forall>x\<in>set fibs. 2 \<le> x \<Longrightarrow>
     \<exists>fibs'. collect_fibs n k fibs seen = Inr fibs' \<and> (\<forall>x\<in>set fibs'. 2 \<le> x)"
proof (induction n k fibs seen rule: collect_fibs.induct)
  case (1 n k fibs seen)
  from fib_from_three [OF "1.prems"(1)] obtain f where f: "fib k = Inr f" "2 \<le> f"
    by blast
  show ?case
  proof (cases "f > n")
    case True
    with f "1.prems" show ?thesis by simp
  next
    case False
    show ?thesis
    proof (cases "f \<in> seen")
      case True
      have "\<exists>fibs'. collect_fibs n (k + 1) fibs seen = Inr fibs' \<and> (\<forall>x\<in>set fibs'. 2 \<le> x)"
        using f \<open>\<not> f > n\<close> True "1.prems" by (intro "1.IH"(2)) simp_all
      with f \<open>\<not> f > n\<close> True show ?thesis by simp
    next
      case notin: False
      have "\<exists>fibs'. collect_fibs n (k + 1) (fibs @ [f]) (insert f seen) = Inr fibs'
              \<and> (\<forall>x\<in>set fibs'. 2 \<le> x)"
        using f \<open>\<not> f > n\<close> notin "1.prems" by (intro "1.IH"(1)) simp_all
      with f \<open>\<not> f > n\<close> notin show ?thesis by simp
    qed
  qed
qed

lemma divide_out_returns:
  assumes "2 \<le> f"
  shows "\<exists>res. divide_out f remaining factors = Some (Inr res)"
proof (induction "nat remaining" arbitrary: remaining factors rule: less_induct)
  case less
  show ?case
  proof (cases "remaining > 1 \<and> remaining mod f = 0")
    case True
    then have "remaining div f < remaining"
      using assms by (intro int_div_less_self) simp_all
    moreover have "0 \<le> remaining div f"
      using True assms by (simp add: pos_imp_zdiv_nonneg_iff)
    ultimately have "nat (remaining div f) < nat remaining"
      using True by simp
    from less [OF this] obtain res
      where "divide_out f (remaining div f) (factors @ [f]) = Some (Inr res)"
      by blast
    with True assms show ?thesis
      by (subst divide_out.simps) simp
  next
    case False
    with assms show ?thesis
      by (subst divide_out.simps) auto
  qed
qed

lemma greedy_returns:
  "\<forall>f\<in>set fs. 2 \<le> f \<Longrightarrow> \<exists>res. greedy fs remaining factors = Some (Inr res)"
proof (induction fs arbitrary: remaining factors)
  case Nil
  then show ?case by simp
next
  case (Cons f fs)
  then have "2 \<le> f" by simp
  from divide_out_returns [OF this] obtain factors' remaining'
    where "divide_out f remaining factors = Some (Inr (factors', remaining'))"
    by (metis surj_pair)
  moreover from Cons obtain res where "greedy fs remaining' factors' = Some (Inr res)"
    by fastforce
  ultimately show ?case by simp
qed

lemma fibonacci_factors_positive:
  assumes pos: "0 < n"
  shows "\<exists>r. fibonacci_factors n = Some (Inr r) \<and> sorted (ff_factors r)
          \<and> ff_product r = prod_list (ff_factors r)
          \<and> ff_residual r = n - ff_product r
          \<and> ff_exact r = Some (ff_product r = n)"
proof -
  obtain fibs where fibs: "collect_fibs n 3 [] {} = Inr fibs" "\<forall>x\<in>set fibs. 2 \<le> x"
    using collect_fibs_returns [of 3 "[]" n "{}"] by auto
  then have "\<forall>f\<in>set (rev (sort fibs)). 2 \<le> f" by simp
  from greedy_returns [OF this] obtain factors remaining
    where "greedy (rev (sort fibs)) n [] = Some (Inr (factors, remaining))"
    by (metis surj_pair)
  with pos fibs(1) show ?thesis
    by (simp add: fibonacci_factors_def Let_def fold_mult_prod_list)
qed

text \<open>
  Claim C6, as the code has it. For every integer \<open>n > 0\<close>, \<open>fibonacci_factors\<close>
  returns (the loops end and nothing is raised) a record whose factors are in ascending
  order, whose product is the product of the factors, whose residual is \<open>n\<close> minus the
  product and whose \<open>exact\<close> is \<open>product == n\<close>. For \<open>n \<le> 0\<close> it returns the empty
  factor list with product \<open>0\<close> and residual \<open>n\<close>.
\<close>

theorem fibonacci_factors_record:
  "(0 < n \<longrightarrow>
      (\<exists>r. fibonacci_factors n = Some (Inr r) \<and> sorted (ff_factors r)
          \<and> ff_product r = prod_list (ff_factors r)
          \<and> ff_residual r = n - ff_product r
          \<and> ff_exact r = Some (ff_product r = n)))
   \<and> (n \<le> 0 \<longrightarrow>
      (\<exists>r. fibonacci_factors n = Some (Inr r) \<and> ff_factors r = []
          \<and> ff_product r = 0 \<and> ff_residual r = n))"
proof (intro conjI impI)
  assume "n \<le> 0"
  then show "\<exists>r. fibonacci_factors n = Some (Inr r) \<and> ff_factors r = []
          \<and> ff_product r = 0 \<and> ff_residual r = n"
    by (simp add: fibonacci_factors_def)
next
  assume "0 < n"
  then show "\<exists>r. fibonacci_factors n = Some (Inr r) \<and> sorted (ff_factors r)
          \<and> ff_product r = prod_list (ff_factors r)
          \<and> ff_residual r = n - ff_product r
          \<and> ff_exact r = Some (ff_product r = n)"
    by (rule fibonacci_factors_positive)
qed

text \<open>The theorem at \<open>n = 45\<close> and at \<open>n = -2\<close>.\<close>

theorem fibonacci_factors_record_witness:
  "(0::int) < 45 \<and>
     (\<exists>r. fibonacci_factors 45 = Some (Inr r) \<and> sorted (ff_factors r)
          \<and> ff_product r = prod_list (ff_factors r)
          \<and> ff_residual r = 45 - ff_product r
          \<and> ff_exact r = Some (ff_product r = 45))
   \<and> (-2::int) \<le> 0 \<and>
     (\<exists>r. fibonacci_factors (-2) = Some (Inr r) \<and> ff_factors r = []
          \<and> ff_product r = 0 \<and> ff_residual r = -2)"
  using fibonacci_factors_record [of 45] fibonacci_factors_record [of "-2"] by simp

text \<open>
  Claim C6 as stated fails at \<open>n = 0\<close>: the record of the early return has no
  \<open>exact\<close> entry, and its product is \<open>0\<close>, which is not the product of its (empty)
  list of factors.
\<close>

theorem fibonacci_factors_zero_counterexample:
  "fibonacci_factors 0 =
     Some (Inr \<lparr>ff_factors = [], ff_product = 0, ff_residual = 0, ff_exact = None\<rparr>)
   \<and> prod_list ([]::int list) \<noteq> 0"
  by (simp add: fibonacci_factors_def)

text \<open>
  Claim C7 says that \<open>hierarchy_rank\<close> completes without raising for every input
  integer. On the input \<open>[0]\<close> the decomposition has group \<open>unknown\<close> and a
  factorization without the key \<open>exact\<close>, and reading that key raises \<open>KeyError\<close>.
\<close>

theorem hierarchy_rank_zero_raises: "hierarchy_rank [0] = Some (Inl KeyError)"
  by (simp add: hierarchy_rank_def gut_decomposition_def KNOWN_REPS_def fibonacci_factors_def)

text \<open>
  On positive denominators \<open>hierarchy_rank\<close> does what the specification says: it
  returns one record for each input, scored by the rule above and sorted by descending
  score, ties by ascending denominator.
\<close>

lemma KNOWN_REPS_named:
  "KNOWN_REPS d = Some info \<Longrightarrow> 0 < d \<and> fst info \<noteq> ''unknown''"
  by (auto simp: KNOWN_REPS_def split: if_splits)

lemma gut_decomposition_positive:
  assumes "0 < d"
  shows "\<exists>info. gut_decomposition d = Some (Inr info)
           \<and> (gi_group info \<noteq> ''unknown'' \<longleftrightarrow> d \<in> dom KNOWN_REPS)
           \<and> ff_exact (gi_fibonacci_factors info) \<noteq> None"
proof -
  from fibonacci_factors_positive [OF assms] obtain ff
    where ff: "fibonacci_factors d = Some (Inr ff)" "ff_exact ff \<noteq> None"
    by auto
  show ?thesis
  proof (cases "KNOWN_REPS d")
    case None
    with ff show ?thesis
      by (simp add: gut_decomposition_def domIff)
  next
    case (Some info)
    with ff KNOWN_REPS_named [OF Some] show ?thesis
      by (simp add: gut_decomposition_def domIff)
  qed
qed

lemma rank_loop_positive:
  assumes "\<forall>d\<in>set dens. 0 < d"
  shows "\<exists>rs. rank_loop dens ranked = Some (Inr (ranked @ rs))
           \<and> map rk_denominator rs = dens \<and> (\<forall>r\<in>set rs. score_rule r)"
  using assms
proof (induction dens arbitrary: ranked)
  case Nil
  then show ?case by simp
next
  case (Cons d dens)
  then have "0 < d" by simp
  from gut_decomposition_positive [OF this] obtain info
    where info: "gut_decomposition d = Some (Inr info)"
      "gi_group info \<noteq> ''unknown'' \<longleftrightarrow> d \<in> dom KNOWN_REPS"
      "ff_exact (gi_fibonacci_factors info) \<noteq> None"
    by blast
  define score :: int where
    "score = (if d \<in> dom KNOWN_REPS then 3
              else if ff_exact (gi_fibonacci_factors info) = Some True then 2 else 1)"
  define e where "e = gut_info.extend info \<lparr>rk_denominator = d, rk_score = score\<rparr>"
  have step: "rank_loop (d # dens) ranked = rank_loop dens (ranked @ [e])"
    using info by (auto simp: e_def score_def split: option.splits bool.splits)
  have e: "rk_denominator e = d" "score_rule e"
    by (simp_all add: e_def score_rule_def score_def gut_info.defs)
  from Cons obtain rs where rs: "rank_loop dens (ranked @ [e]) = Some (Inr ((ranked @ [e]) @ rs))"
    "map rk_denominator rs = dens" "\<forall>r\<in>set rs. score_rule r"
    by fastforce
  show ?case
  proof (intro exI [of _ "e # rs"] conjI)
    show "rank_loop (d # dens) ranked = Some (Inr (ranked @ e # rs))"
      using step rs(1) by simp
    show "map rk_denominator (e # rs) = d # dens"
      using e rs(2) by simp
    show "\<forall>r\<in>set (e # rs). score_rule r"
      using e rs(3) by simp
  qed
qed

lemma hierarchy_rank_positive:
  assumes "\<forall>d\<in>set denominators. 0 < d"
  shows "\<exists>ranked. hierarchy_rank denominators = Some (Inr ranked)
           \<and> mset (map rk_denominator ranked) = mset denominators
           \<and> sorted (map (\<lambda>r. (- rk_score r, rk_denominator r)) ranked)
           \<and> (\<forall>r\<in>set ranked. score_rule r)"
proof -
  from rank_loop_positive [OF assms, of "[]"] obtain rs
    where rs: "rank_loop denominators [] = Some (Inr rs)"
      "map rk_denominator rs = denominators" "\<forall>r\<in>set rs. score_rule r"
    by auto
  let ?sorted = "sort_key (\<lambda>r. (- rk_score r, rk_denominator r)) rs"
  have "hierarchy_rank denominators = Some (Inr ?sorted)"
    using rs(1) by (simp add: hierarchy_rank_def)
  moreover have "mset (map rk_denominator ?sorted) = mset denominators"
  proof -
    have "mset (map rk_denominator ?sorted) = image_mset rk_denominator (mset ?sorted)"
      by (rule mset_map)
    also have "\<dots> = image_mset rk_denominator (mset rs)"
      by simp
    also have "\<dots> = mset (map rk_denominator rs)"
      by (rule mset_map [symmetric])
    finally show ?thesis
      by (simp only: rs(2))
  qed
  moreover have "sorted (map (\<lambda>r. (- rk_score r, rk_denominator r)) ?sorted)"
    by (rule sorted_sort_key)
  moreover have "\<forall>r\<in>set ?sorted. score_rule r"
    using rs(3) by simp
  ultimately show ?thesis by blast
qed

lemma hierarchy_rank_example:
  "map_option (map_sum id (map (\<lambda>r. (rk_denominator r, rk_score r))))
     (hierarchy_rank [45, 7, 10, 3, 16])
   = Some (Inr [(3, 3), (45, 3), (10, 2), (16, 2), (7, 1)])"
  by code_simp

subsection \<open>The transforms of core.py\<close>

lemma PHI_gt_1: "1 < PHI"
proof -
  have "1 < sqrt 5" by simp
  then show ?thesis by (simp add: PHI_def)
qed


lemma ln_PHI_pos: "0 < ln PHI"
  using PHI_gt_1 by simp


lemma PHI_powr_D: 
  assumes "0 < x"
  shows "PHI powr (- ln x / ln PHI) = 1 / x"
proof -
  have "PHI powr (- ln x / ln PHI) = exp (- ln x)"
    using PHI_gt_1 ln_PHI_pos by (simp add: powr_def)
  also have "\<dots> = 1 / x"
    using assms by (simp add: exp_minus inverse_eq_divide)
  finally show ?thesis .
qed


lemma fl_in_range: "1 / 2 ^ 1075 < r \<Longrightarrow> r < 2 ^ 1024 \<Longrightarrow> fl r = Fin r"
  by (simp add: fl_def)

lemma fl_overflow: "2 ^ 1024 \<le> r \<Longrightarrow> fl r = PInf"
  by (simp add: fl_def)

lemma tiny_lt: "(1::real) / 2 ^ 1075 < 1 / 2 ^ 1024"
  by simp

text \<open>
  Claim C8. \<open>D\<close> raises exactly when its argument is \<open>\<le> 0\<close>, the error is always the
  domain error \<open>ValueError\<close>, and a finite \<open>x > 0\<close> is mapped to \<open>- ln x / ln PHI\<close>
  without an error. Nothing in \<open>core.py\<close> catches the error: \<open>Energy\<close> passes it on.
\<close>

theorem D_domain:
  "(D x = Inl ValueError \<longleftrightarrow> py_le x (Fin 0))
   \<and> (\<forall>e. D x = Inl e \<longrightarrow> e = ValueError)
   \<and> (\<forall>r. x = Fin r \<and> 0 < r \<longrightarrow> D x = Inr (Fin (- ln r / ln PHI)))
   \<and> (py_le x (Fin 0) \<longrightarrow> Energy x = Inl ValueError)"
  by (cases x) (auto simp: Energy_def bind_err_def)

theorem D_domain_witness:
  "D (Fin 0) = Inl ValueError \<and> D (Fin (- 3)) = Inl ValueError
   \<and> Energy (Fin 0) = Inl ValueError
   \<and> D (Fin 2) = Inr (Fin (- ln 2 / ln PHI))"
  using D_domain [of "Fin 0"] D_domain [of "Fin (- 3)"] D_domain [of "Fin 2"] by simp




text \<open>
  In the range where \<open>1 / x\<close> and \<open>2 * pi * x\<close> are finite doubles the model, which
  leaves rounding out, gives the energy \<open>2 * pi\<close> exactly; the floats are off it by
  their rounding errors.
\<close>

lemma Energy_in_range:
  assumes "1 / 2 ^ 1024 < x" and "2 * pi * x < 2 ^ 1024"
  shows "Energy (Fin x) = Inr (Fin (2 * pi))"
proof -
  have pos: "0 < x"
    using assms(1) by (rule less_trans [rotated]) simp
  have pi_bounds: "2 \<le> pi" "pi < 4"
    using pi_ge_two pi_less_4 by simp_all
  have x_hi: "x < 2 ^ 1024"
  proof -
    have "x < 2 * pi * x" using pos pi_bounds by simp
    with assms(2) show ?thesis by linarith
  qed
  have inv_hi: "1 / x < 2 ^ 1024"
    using assms(1) pos by (simp add: field_simps)
  have "1 / 2 ^ 1024 < 1 / x"
    using x_hi pos by (simp add: field_simps)
  then have inv_lo: "1 / 2 ^ 1075 < 1 / x"
    using tiny_lt by linarith
  have "\<not> 2 ^ 1024 \<le> 1 / x" "\<not> 1 / x \<le> 1 / 2 ^ 1075"
    using inv_hi inv_lo by simp_all
  then have pow: "pow_PHI (Fin (- ln x / ln PHI)) = Inr (Fin (1 / x))"
    by (simp only: pow_PHI.simps PHI_powr_D [OF pos] if_False)
  have "1 / 2 ^ 1075 < 2 * pi * x"
  proof -
    have "x < 2 * pi * x" using pos pi_bounds by simp
    with assms(1) tiny_lt show ?thesis by linarith
  qed
  then have theta: "Theta (Fin x) = Fin (2 * pi * x)"
    using assms(2) by (simp add: Theta_def fl_in_range)
  have "(1::real) / 2 ^ 1075 < 1" by simp
  then have "1 / 2 ^ 1075 < 2 * pi"
    using pi_bounds by linarith
  moreover have "(8::real) < 2 ^ 1024" by simp
  then have "2 * pi < 2 ^ 1024"
    using pi_bounds by linarith
  ultimately have "fl (2 * pi) = Fin (2 * pi)"
    by (intro fl_in_range)
  moreover have "1 / x * (2 * pi * x) = 2 * pi"
    using pos by simp
  ultimately show ?thesis
    using pos pow theta by (simp add: Energy_def bind_err_def)
qed

text \<open>
  In the same range the model, without rounding, returns \<open>x\<close> from the round trip and
  finds the residual \<open>0\<close> in the closure check. The floats are off these values by
  their rounding errors, which grow with \<open>x\<close> in the round trip.
\<close>

lemma round_trip_in_range:
  assumes "1 / 2 ^ 1024 < x" and "x < 2 ^ 1024"
  shows "bind_err (D (Fin x)) x_from_D = Inr (Fin x)"
proof -
  have pos: "0 < x"
    using assms(1) by (rule less_trans [rotated]) simp
  have inv_hi: "1 / x < 2 ^ 1024"
    using assms(1) pos by (simp add: field_simps)
  have "1 / 2 ^ 1024 < 1 / x"
    using assms(2) pos by (simp add: field_simps)
  then have inv_lo: "1 / 2 ^ 1075 < 1 / x"
    using tiny_lt by linarith
  have "\<not> 2 ^ 1024 \<le> 1 / x" "\<not> 1 / x \<le> 1 / 2 ^ 1075"
    using inv_hi inv_lo by simp_all
  then have pow: "pow_PHI (Fin (- ln x / ln PHI)) = Inr (Fin (1 / x))"
    by (simp only: pow_PHI.simps PHI_powr_D [OF pos] if_False)
  have "1 / 2 ^ 1075 < x"
    using assms(1) tiny_lt by linarith
  then have "fl x = Fin x"
    using assms(2) by (rule fl_in_range)
  moreover have "1 / (1 / x) = x"
    by simp
  ultimately have "py_truediv (Fin 1) (Fin (1 / x)) = Inr (Fin x)"
    using pos by (simp only: py_truediv.simps py_float.case) simp
  with pow pos show ?thesis
    by (simp only: D.simps x_from_D_def bind_err_def) simp
qed

lemma d_space_closure_in_range:
  assumes "1 / 2 ^ 1024 < x" and "x < 2 ^ 1024"
  shows "d_space_closure (Fin x) (Fin tol) =
           Inr (Closure_checked (0 < tol) (Fin (- ln x / ln PHI)) (Fin (- ln (1 / x) / ln PHI))
                  (Fin 0))"
proof -
  have pos: "0 < x"
    using assms(1) by (rule less_trans [rotated]) simp
  have inv_hi: "1 / x < 2 ^ 1024"
    using assms(1) pos by (simp add: field_simps)
  have "1 / 2 ^ 1024 < 1 / x"
    using assms(2) pos by (simp add: field_simps)
  then have inv_lo: "1 / 2 ^ 1075 < 1 / x"
    using tiny_lt by linarith
  have inv: "fl (1 / x) = Fin (1 / x)"
    using inv_lo inv_hi by (rule fl_in_range)
  have "- ln x / ln PHI + - ln (1 / x) / ln PHI = 0"
    using pos by (simp add: ln_div)
  then have sum: "py_add (Fin (- ln x / ln PHI)) (Fin (- ln (1 / x) / ln PHI)) = Fin 0"
    by (simp only: py_add.simps fl_def) simp
  have div: "py_truediv (Fin 1) (Fin x) = Inr (Fin (1 / x))"
    using pos inv by (simp only: py_truediv.simps py_float.case) simp
  have Dx: "D (Fin x) = Inr (Fin (- ln x / ln PHI))"
    using pos by simp
  have Dinv: "D (Fin (1 / x)) = Inr (Fin (- ln (1 / x) / ln PHI))"
    using pos by (simp only: D.simps) simp
  have "\<not> py_le (Fin x) (Fin 0)"
    using pos by simp
  then show ?thesis
    by (simp only: d_space_closure_def Dx div Dinv sum bind_err_def sum.case Let_def if_False)
       simp
qed

lemma PHI_powr_D_subnormal:
  "2 ^ 1024 \<le> PHI powr (- ln (1 / 2 ^ 1074) / ln PHI)"
proof -
  have "PHI powr (- ln (1 / 2 ^ 1074) / ln PHI) = 1 / (1 / 2 ^ 1074)"
    by (rule PHI_powr_D) simp
  then show ?thesis by simp
qed

text \<open>
  Claim C2 says that \<open>Energy(x)\<close> is \<open>2 * pi\<close> within \<open>1e-10\<close> for every \<open>x > 0\<close>. At
  the smallest positive double, \<open>x = 2^-1074\<close> (Python's \<open>5e-324\<close>), \<open>D(x)\<close> is about
  \<open>1547\<close>, \<open>PHI ** D(x)\<close> would be \<open>2^1074\<close>, and the power raises
  \<open>OverflowError\<close>; \<open>energy_conservation\<close> passes the exception on.
\<close>

theorem Energy_subnormal_raises:
  "Energy (Fin (1 / 2 ^ 1074)) = Inl OverflowError
   \<and> energy_conservation (Fin (1 / 2 ^ 1074)) (Fin (1 / 10 ^ 10)) = Inl OverflowError"
  using PHI_powr_D_subnormal
  by (simp add: Energy_def energy_conservation_def bind_err_def)

text \<open>
  Claim C3 says that \<open>x_from_D(D(x))\<close> recovers \<open>x\<close> within \<open>1e-10\<close> for every
  \<open>x > 0\<close>. At \<open>x = 2^-1074\<close> the round trip raises \<open>OverflowError\<close> in
  \<open>PHI ** D(x)\<close>.
\<close>

theorem round_trip_subnormal_raises:
  "bind_err (D (Fin (1 / 2 ^ 1074))) x_from_D = Inl OverflowError"
  using PHI_powr_D_subnormal
  by (simp add: x_from_D_def bind_err_def)

text \<open>
  Claim C4 says that \<open>D(x) + D(1/x)\<close> is \<open>0\<close> within \<open>1e-10\<close> for every \<open>x > 0\<close>. At
  \<open>x = 2^-1074\<close> the quotient \<open>1.0 / x\<close> is \<open>inf\<close>, \<open>D(inf)\<close> is \<open>-inf\<close>, and the
  sum is \<open>-inf\<close>: \<open>d_space_closure\<close> reports \<open>valid = False\<close>.
\<close>

theorem d_space_closure_subnormal_invalid:
  "d_space_closure (Fin (1 / 2 ^ 1074)) (Fin (1 / 10 ^ 10)) =
     Inr (Closure_checked False (Fin (- ln (1 / 2 ^ 1074) / ln PHI)) NInf NInf)"
proof -
  have "fl (1 / (1 / 2 ^ 1074)) = PInf"
    by (rule fl_overflow) simp
  then show ?thesis
    by (simp add: d_space_closure_def bind_err_def)
qed

subsection \<open>SumRuleValidator\<close>

lemma round_half_even_near: "\<bar>of_int (round_half_even x) - x\<bar> \<le> 1 / 2"
  unfolding round_half_even_def Let_def by (auto simp: abs_if) linarith+

lemma py_round_near: "\<bar>py_round x n - x\<bar> \<le> 1 / (2 * 10 ^ n)"
proof -
  have "\<bar>py_round x n - x\<bar> = \<bar>of_int (round_half_even (x * 10 ^ n)) - x * 10 ^ n\<bar> / 10 ^ n"
    by (simp add: py_round_def field_simps  flip: abs_mult)
  also have "\<dots> \<le> (1 / 2) / 10 ^ n"
    by (intro divide_right_mono round_half_even_near) simp
  finally show ?thesis by simp
qed



text \<open>
  Every number of the counterexample below is a double, and so is the exact result of
  each operation on the way: the difference \<open>313 / 2^12\<close>, the quotient \<open>313 / 2^18\<close>,
  the product \<open>4890625 / 2^12 = 1194.000244140625\<close>, and the two rounded values.
\<close>

lemma counterexample_values_exact:
  "(262457 / 2 ^ 12 :: real) - 64 = 313 / 2 ^ 12"
  "\<bar>313 / 2 ^ 12 :: real\<bar> / \<bar>64\<bar> = 313 / 2 ^ 18"
  "(313 / 2 ^ 18 :: real) * 10 ^ 6 = 4890625 / 2 ^ 12"
  "py_round (4890625 / 2 ^ 12) 3 = 1194"
  "py_round (313 / 2 ^ 12) 12 = 313 / 2 ^ 12"
  by (simp_all add: py_round_def round_half_even_def)


subsection \<open>Adapters\<close>

text \<open>
  Claim C9. For each of the three adapters and every ingested dictionary with the key
  \<open>"error"\<close>, \<open>analyze\<close> returns (nothing is raised, whatever the code behind the
  guard would do) a result with \<open>success = False\<close>, consistency score \<open>0.0\<close> and the
  value under \<open>"error"\<close> as its only recommendation.
\<close>

theorem analyze_error_marker:
  assumes "d_data ''error'' = Some message"
  shows "\<exists>r. analyze adapter d_data = Inr r
           \<and> success r = False
           \<and> consistency_score r = Fin 0
           \<and> recommendations r = [message]"
  using assms
  by (cases adapter)
     (simp_all add: CalibrationAdapter_analyze_def SensorFusionAdapter_analyze_def
        PhotosynthesisAdapter_analyze_def)

text \<open>
  The theorem on the dictionaries that the three \<open>ingest\<close> methods return for an empty
  list of readings, an empty list of sensors and the unknown mode \<open>x\<close>, with code
  behind the guards that would raise.
\<close>

theorem analyze_error_marker_witness:
  "(\<exists>r. analyze (Calibration (\<lambda>d. Inl ValueError))
          [''error'' \<mapsto> VStr ''No readings provided'', ''d_readings'' \<mapsto> VList [],
           ''d_ref'' \<mapsto> VFloat (Fin 0)] = Inr r
        \<and> success r = False \<and> consistency_score r = Fin 0
        \<and> recommendations r = [VStr ''No readings provided''])
   \<and> (\<exists>r. analyze (Sensor_fusion (\<lambda>d. Inl ValueError))
          [''error'' \<mapsto> VStr ''No sensors provided'', ''sensor_data'' \<mapsto> VList []] = Inr r
        \<and> success r = False \<and> consistency_score r = Fin 0
        \<and> recommendations r = [VStr ''No sensors provided''])
   \<and> (\<exists>r. analyze
          (Photosynthesis \<lparr>analyze_cascade = (\<lambda>d. Inl ValueError),
             analyze_mof = (\<lambda>d. Inl ValueError), analyze_full = (\<lambda>d. Inl ValueError),
             format_value = (\<lambda>v. ''x'')\<rparr>)
          [''error'' \<mapsto> VStr (''Unknown mode '' @ [CHR 0x27] @ ''x'' @ [CHR 0x27])] = Inr r
        \<and> success r = False \<and> consistency_score r = Fin 0
        \<and> recommendations r = [VStr (''Unknown mode '' @ [CHR 0x27] @ ''x'' @ [CHR 0x27])])"
  using
    analyze_error_marker [of "[''error'' \<mapsto> VStr ''No readings provided'',
      ''d_readings'' \<mapsto> VList [], ''d_ref'' \<mapsto> VFloat (Fin 0)]"
      "VStr ''No readings provided''" "Calibration (\<lambda>d. Inl ValueError)"]
    analyze_error_marker [of "[''error'' \<mapsto> VStr ''No sensors provided'',
      ''sensor_data'' \<mapsto> VList []]"
      "VStr ''No sensors provided''" "Sensor_fusion (\<lambda>d. Inl ValueError)"]
    analyze_error_marker [of
      "[''error'' \<mapsto> VStr (''Unknown mode '' @ [CHR 0x27] @ ''x'' @ [CHR 0x27])]"
      "VStr (''Unknown mode '' @ [CHR 0x27] @ ''x'' @ [CHR 0x27])"
      "Photosynthesis \<lparr>analyze_cascade = (\<lambda>d. Inl ValueError),
             analyze_mof = (\<lambda>d. Inl ValueError), analyze_full = (\<lambda>d. Inl ValueError),
             format_value = (\<lambda>v. ''x'')\<rparr>"]
  by simp

subsection \<open>ConstantsDB\<close>

lemma run_query_as_choice:
  "run_query cs q s = bind_err (choice cs q s) (\<lambda>a. Inr (copy_answer a s))"
proof (cases q)
  case (Get name)
  have "get cs name s = bind_err (get_choice cs name s)
          (\<lambda>r. Inr (case r of None \<Rightarrow> (None, s)
                     | Some c \<Rightarrow> (case dict_copy c s of (r', s') \<Rightarrow> (Some r', s'))))"
    by (induction cs) (auto simp: bind_err_def split: sum.splits prod.splits)
  then show ?thesis
    using Get by (auto simp: bind_err_def split: sum.splits prod.splits option.splits)
next
  case (Search sector qry)
  then show ?thesis
    by (auto simp: search_def search_choice_def bind_err_def
        split: sum.splits prod.splits option.splits)
next
  case (Best_predictions n)
  then show ?thesis
    by (auto simp: best_predictions_def best_choice_def bind_err_def
        split: sum.splits prod.splits)
qed

lemma item_cong: "objs s c = objs t c \<Longrightarrow> item s c key = item t c key"
  by (simp add: item_def)

lemma filter_err_cong:
  "(\<And>x. x \<in> set xs \<Longrightarrow> p x = q x) \<Longrightarrow> filter_err p xs = filter_err q xs"
  by (induction xs) simp_all

lemma filter_err_subset: "filter_err p xs = Inr ys \<Longrightarrow> set ys \<subseteq> set xs"
proof (induction xs arbitrary: ys)
  case Nil
  then show ?case by simp
next
  case (Cons x xs)
  then show ?case
    by (auto simp: bind_err_def split: sum.splits if_splits)
qed

lemma insort_key_cong:
  "f x = g x \<Longrightarrow> (\<And>y. y \<in> set ys \<Longrightarrow> f y = g y) \<Longrightarrow> insort_key f x ys = insort_key g x ys"
  by (induction ys) simp_all

lemma sort_key_cong':
  "(\<And>x. x \<in> set xs \<Longrightarrow> f x = g x) \<Longrightarrow> sort_key f xs = sort_key g xs"
proof (induction xs)
  case Nil
  then show ?case by simp
next
  case (Cons x xs)
  have "sort_key f xs = sort_key g xs"
    using Cons by simp
  moreover have "insort_key f x (sort_key g xs) = insort_key g x (sort_key g xs)"
    using Cons.prems by (intro insort_key_cong) simp_all
  ultimately show ?case by (simp add: sort_key_def)
qed

lemma slice_to_subset: "set (slice_to n xs) \<subseteq> set xs"
  by (auto simp: slice_to_def dest: in_set_takeD)

lemma get_choice_cong:
  "agree cs s t \<Longrightarrow> get_choice cs name s = get_choice cs name t"
proof (induction cs)
  case Nil
  then show ?case by simp
next
  case (Cons c cs)
  then have "get_choice cs name s = get_choice cs name t"
    by (simp add: agree_def)
  moreover have "item s c ''name'' = item t c ''name''"
    using Cons.prems by (intro item_cong) (simp add: agree_def)
  ultimately show ?case by (simp cong: if_cong)
qed

lemma get_choice_subset: "get_choice cs name s = Inr (Some c) \<Longrightarrow> c \<in> set cs"
  by (induction cs) (auto simp: bind_err_def split: sum.splits if_splits)

lemma ppm_key_cong: "objs s c = objs t c \<Longrightarrow> ppm_key s c = ppm_key t c"
  by (simp add: ppm_key_def item_cong [of s c t])

lemma sector_filter_cong:
  assumes "agree cs s t" and "set xs \<subseteq> set cs"
  shows "filter_err (\<lambda>c. bind_err (item s c key) f) xs
       = filter_err (\<lambda>c. bind_err (item t c key) f) xs"
  using assms by (intro filter_err_cong) (auto simp: agree_def item_cong [of s _ t])

lemma search_choice_cong:
  assumes "agree cs s t"
  shows "search_choice cs sector qry s = search_choice cs sector qry t"
proof -
  let ?first = "\<lambda>s. case sector of
          None \<Rightarrow> Inr cs
        | Some sec \<Rightarrow>
            if sec = [] then Inr cs
            else filter_err (\<lambda>c. bind_err (item s c ''sector'') (\<lambda>v. Inr (v = CStr sec))) cs"
  have first: "?first s = ?first t"
    using sector_filter_cong [OF assms subset_refl] by (simp split: option.splits)
  have sub: "set results \<subseteq> set cs" if "?first t = Inr results" for results
    using that by (auto split: option.splits if_splits dest: filter_err_subset)
  show ?thesis
  proof (cases "?first t")
    case (Inl e)
    with first show ?thesis
      by (simp add: search_choice_def bind_err_def)
  next
    case (Inr results)
    from sub [OF Inr] sector_filter_cong [OF assms]
    have "filter_err (\<lambda>c. bind_err (item s c ''name'') f) results
        = filter_err (\<lambda>c. bind_err (item t c ''name'') f) results" for f
      by blast
    with first Inr show ?thesis
      by (simp add: search_choice_def bind_err_def split: option.splits)
  qed
qed

lemma search_choice_subset:
  assumes "search_choice cs sector qry s = Inr rs"
  shows "set rs \<subseteq> set cs"
proof -
  let ?first = "case sector of
          None \<Rightarrow> Inr cs
        | Some sec \<Rightarrow>
            if sec = [] then Inr cs
            else filter_err (\<lambda>c. bind_err (item s c ''sector'') (\<lambda>v. Inr (v = CStr sec))) cs"
  from assms obtain results where first: "?first = Inr results"
    by (cases ?first) (simp_all add: search_choice_def bind_err_def)
  then have sub: "set results \<subseteq> set cs"
    by (auto split: option.splits if_splits dest: filter_err_subset)
  from assms first have "set rs \<subseteq> set results"
    by (auto simp: search_choice_def bind_err_def split: option.splits if_splits
        dest: filter_err_subset)
  with sub show ?thesis by blast
qed

lemma best_choice_cong:
  assumes "agree cs s t"
  shows "best_choice cs n s = best_choice cs n t"
proof -
  let ?f = "\<lambda>v. case v of CFloat x \<Rightarrow> Inr (0 < x) | CStr t \<Rightarrow> Inl TypeError"
  have filt: "filter_err (\<lambda>c. bind_err (item s c ''deviation_ppm'') ?f) cs
            = filter_err (\<lambda>c. bind_err (item t c ''deviation_ppm'') ?f) cs"
    by (rule sector_filter_cong [OF assms subset_refl])
  show ?thesis
  proof (cases "filter_err (\<lambda>c. bind_err (item t c ''deviation_ppm'') ?f) cs")
    case (Inl e)
    with filt show ?thesis by (simp add: best_choice_def bind_err_def)
  next
    case (Inr non_exact)
    then have "set non_exact \<subseteq> set cs"
      by (rule filter_err_subset)
    then have "sort_key (ppm_key s) non_exact = sort_key (ppm_key t) non_exact"
      using assms by (intro sort_key_cong' ppm_key_cong) (auto simp: agree_def)
    with filt Inr show ?thesis by (simp add: best_choice_def bind_err_def)
  qed
qed

lemma best_choice_subset:
  assumes "best_choice cs n s = Inr rs"
  shows "set rs \<subseteq> set cs"
proof -
  from assms obtain non_exact
    where filt: "filter_err
          (\<lambda>c. bind_err (item s c ''deviation_ppm'') (\<lambda>v.
             case v of CFloat x \<Rightarrow> Inr (0 < x) | CStr t \<Rightarrow> Inl TypeError)) cs = Inr non_exact"
      and rs: "rs = slice_to n (sort_key (ppm_key s) non_exact)"
    by (auto simp: best_choice_def bind_err_def split: sum.splits)
  have "set rs \<subseteq> set (sort_key (ppm_key s) non_exact)"
    unfolding rs by (rule slice_to_subset)
  also have "\<dots> = set non_exact" by simp
  also have "\<dots> \<subseteq> set cs" using filt by (rule filter_err_subset)
  finally show ?thesis .
qed

lemma choice_cong: "agree cs s t \<Longrightarrow> choice cs q s = choice cs q t"
  by (cases q) (simp_all add: get_choice_cong search_choice_cong best_choice_cong)

lemma choice_subset:
  assumes "choice cs q s = Inr a"
  shows "set_answer a \<subseteq> set cs"
proof (cases q)
  case (Get name)
  with assms show ?thesis
    by (auto simp: map_sum_def split: sum.splits dest: get_choice_subset)
next
  case (Search sector qry)
  with assms show ?thesis
    using search_choice_subset [of cs sector qry s]
    by (auto simp: map_sum_def split: sum.splits)
next
  case (Best_predictions n)
  with assms show ?thesis
    using best_choice_subset [of cs n s]
    by (auto simp: map_sum_def split: sum.splits)
qed


lemma copy_all_Cons:
  "copy_all (c # cs) s = (rs, s') \<longleftrightarrow>
     (\<exists>rs'. copy_all cs (s\<lparr>objs := (objs s)(next_ref s := objs s c),
                              next_ref := Suc (next_ref s)\<rparr>) = (rs', s')
            \<and> rs = next_ref s # rs')"
  by (auto simp: dict_copy_def split: prod.splits)

lemma copy_all_props:
  "copy_all cs s = (rs, s') \<Longrightarrow>
     next_ref s' = next_ref s + length cs
     \<and> (\<forall>x<next_ref s. objs s' x = objs s x)
     \<and> set rs \<subseteq> {next_ref s ..< next_ref s'}
     \<and> ((\<forall>c\<in>set cs. c < next_ref s) \<longrightarrow> map (objs s') rs = map (objs s) cs)"
proof (induction cs arbitrary: s rs s')
  case Nil
  then show ?case by simp
next
  case (Cons c cs)
  define s1 where "s1 = s\<lparr>objs := (objs s)(next_ref s := objs s c), next_ref := Suc (next_ref s)\<rparr>"
  have s1: "next_ref s1 = Suc (next_ref s)" "objs s1 = (objs s)(next_ref s := objs s c)"
    by (simp_all add: s1_def)
  from Cons.prems obtain rs' where rs': "copy_all cs s1 = (rs', s')" "rs = next_ref s # rs'"
    unfolding copy_all_Cons s1_def by blast
  note IH = Cons.IH [OF rs'(1)]
  have len: "next_ref s' = next_ref s + length (c # cs)"
    using IH s1 by simp
  have frame: "\<forall>x<next_ref s. objs s' x = objs s x"
    using IH s1 by simp
  have fresh: "set rs \<subseteq> {next_ref s ..< next_ref s'}"
    using IH s1 rs'(2) by auto
  have copies: "map (objs s') rs = map (objs s) (c # cs)" if wf: "\<forall>x\<in>set (c # cs). x < next_ref s"
  proof -
    have "\<forall>x\<in>set cs. x < next_ref s1"
      using wf s1 by auto
    with IH have "map (objs s') rs' = map (objs s1) cs"
      by simp
    also have "\<dots> = map (objs s) cs"
      using wf s1 by auto
    finally have tl: "map (objs s') rs' = map (objs s) cs" .
    have "objs s' (next_ref s) = objs s1 (next_ref s)"
      using IH s1 by simp
    then have "objs s' (next_ref s) = objs s c"
      using s1 by simp
    with tl rs'(2) show ?thesis
      by simp
  qed
  from len frame fresh copies show ?case by blast
qed

lemma copy_answer_props:
  assumes "copy_answer a s = (b, s')" and "\<forall>c\<in>set_answer a. c < next_ref s"
  shows "map_answer (objs s') b = map_answer (objs s) a"
    and "\<forall>x<next_ref s. objs s' x = objs s x"
    and "next_ref s \<le> next_ref s'"
    and "\<forall>r\<in>set_answer b. next_ref s \<le> r \<and> r < next_ref s'"
proof -
  have "map_answer (objs s') b = map_answer (objs s) a
     \<and> (\<forall>x<next_ref s. objs s' x = objs s x)
     \<and> next_ref s \<le> next_ref s'
     \<and> (\<forall>r\<in>set_answer b. next_ref s \<le> r \<and> r < next_ref s')"
  proof (cases a)
    case (One opt)
    with assms show ?thesis
      by (cases opt) (auto simp: dict_copy_def)
  next
    case (Many cs)
    with assms(1) obtain rs where rs: "copy_all cs s = (rs, s')" "b = Many rs"
      by (auto split: prod.splits)
    from copy_all_props [OF rs(1)] assms(2) Many rs(2) show ?thesis
      by auto
  qed
  then show "map_answer (objs s') b = map_answer (objs s) a"
    and "\<forall>x<next_ref s. objs s' x = objs s x"
    and "next_ref s \<le> next_ref s'"
    and "\<forall>r\<in>set_answer b. next_ref s \<le> r \<and> r < next_ref s'"
    by simp_all
qed

lemma run_query_props:
  assumes run: "run_query cs q s = Inr (a, s')"
    and wf: "\<forall>c\<in>set cs. c < next_ref s"
  obtains a0 where "choice cs q s = Inr a0" and "set_answer a0 \<subseteq> set cs"
    and "map_answer (objs s') a = map_answer (objs s) a0"
    and "\<forall>x<next_ref s. objs s' x = objs s x"
    and "next_ref s \<le> next_ref s'"
    and "\<forall>r\<in>set_answer a. next_ref s \<le> r \<and> r < next_ref s'"
proof -
  from run obtain a0 where a0: "choice cs q s = Inr a0" "copy_answer a0 s = (a, s')"
    unfolding run_query_as_choice by (auto simp: bind_err_def split: sum.splits)
  have sub: "set_answer a0 \<subseteq> set cs"
    using a0(1) by (rule choice_subset)
  with wf have below: "\<forall>c\<in>set_answer a0. c < next_ref s"
    by (simp add: subset_iff)
  note props = copy_answer_props [OF a0(2) below]
  show ?thesis
    by (rule that [OF a0(1) sub props])
qed

lemma below_mono: "\<forall>c\<in>A. c < (m::nat) \<Longrightarrow> m \<le> n \<Longrightarrow> \<forall>c\<in>A. c < n"
  using order_less_le_trans by blast

lemma session_table_kept:
  assumes "session cs st st'"
    and "table_kept cs s0 st"
    and wf: "\<forall>c\<in>set cs. c < next_ref s0"
  shows "table_kept cs s0 st'"
  using assms(1,2)
proof (induction rule: session.induct)
  case (session_start st)
  then show ?case by simp
next
  case (session_query st s given q a s')
  then have kept: "table_kept cs s0 (s, given)"
    by simp
  then have agree: "agree cs s0 s" and le: "next_ref s0 \<le> next_ref s"
    and given: "\<forall>r\<in>given. r \<notin> set cs \<and> r < next_ref s"
    by (simp_all add: table_kept_def)
  have wf_s: "\<forall>c\<in>set cs. c < next_ref s"
    using wf le by (rule below_mono)
  from session_query.hyps(2) wf_s obtain a0
    where frame: "\<forall>x<next_ref s. objs s' x = objs s x"
    and mono: "next_ref s \<le> next_ref s'"
    and fresh: "\<forall>r\<in>set_answer a. next_ref s \<le> r \<and> r < next_ref s'"
    by (rule run_query_props)
  have "agree cs s0 s'"
    unfolding agree_def
  proof
    fix c assume c: "c \<in> set cs"
    with wf_s frame have "objs s' c = objs s c" by simp
    with agree c show "objs s0 c = objs s' c" by (simp add: agree_def)
  qed
  moreover have "next_ref s0 \<le> next_ref s'"
    using le mono by simp
  moreover have "\<forall>r\<in>given \<union> set_answer a. r \<notin> set cs \<and> r < next_ref s'"
  proof
    fix r assume "r \<in> given \<union> set_answer a"
    then show "r \<notin> set cs \<and> r < next_ref s'"
    proof
      assume "r \<in> given"
      with given mono show ?thesis by fastforce
    next
      assume "r \<in> set_answer a"
      with fresh have "next_ref s \<le> r" "r < next_ref s'" by simp_all
      moreover from this wf_s have "r \<notin> set cs" by fastforce
      ultimately show ?thesis by simp
    qed
  qed
  ultimately show ?case
    by (simp add: table_kept_def)
next
  case (session_mutate st s given r d)
  then have kept: "table_kept cs s0 (s, given)"
    by simp
  with session_mutate.hyps(2) have "r \<notin> set cs"
    by (simp add: table_kept_def)
  with kept show ?case
    by (auto simp: table_kept_def agree_def)
qed


text \<open>
  Claim C10. Let the records of the table be in use in the store \<open>s0\<close>, and let a caller
  run any sequence of queries and of changes to the records it was given, reaching the
  store \<open>s\<close>. Then the stored records are what they were in \<open>s0\<close>; every query returns
  in \<open>s\<close> what it returns in \<open>s0\<close> (the same error, or equal dictionaries); and the
  references a query returns are new ones (not in the table, not given before), each to
  a dictionary equal to one of the stored records.
\<close>

theorem queries_return_fresh_copies:
  assumes wf: "\<forall>c\<in>set constants. c < next_ref s0"
    and sess: "session constants (s0, {}) (s, given)"
  shows "(\<forall>c\<in>set constants. objs s c = objs s0 c)
     \<and> returned (run_query constants q s) = returned (run_query constants q s0)
     \<and> (\<forall>a s'. run_query constants q s = Inr (a, s') \<longrightarrow>
           (\<forall>r\<in>set_answer a. r \<notin> set constants \<and> r \<notin> given \<and> next_ref s \<le> r
                \<and> (\<exists>c\<in>set constants. objs s' r = objs s0 c)))"
proof -
  have "table_kept constants s0 (s0, {})"
    by (simp add: table_kept_def agree_def)
  from session_table_kept [OF sess this wf]
  have agree: "agree constants s0 s"
    and le: "next_ref s0 \<le> next_ref s"
    and given: "\<forall>r\<in>given. r \<notin> set constants \<and> r < next_ref s"
    by (simp_all add: table_kept_def)
  have wf_s: "\<forall>c\<in>set constants. c < next_ref s"
    using wf le by (rule below_mono)
  have unchanged: "\<forall>c\<in>set constants. objs s c = objs s0 c"
    using agree by (simp add: agree_def)
  have "agree constants s s0"
    using unchanged by (simp add: agree_def)
  then have same_choice: "choice constants q s = choice constants q s0"
    by (rule choice_cong)
  have same: "returned (run_query constants q s) = returned (run_query constants q s0)"
  proof (cases "choice constants q s0")
    case (Inl e)
    with same_choice show ?thesis
      by (simp add: run_query_as_choice returned_def bind_err_def)
  next
    case (Inr a0)
    obtain b s' where b: "copy_answer a0 s = (b, s')"
      by (cases "copy_answer a0 s")
    obtain b0 s0' where b0: "copy_answer a0 s0 = (b0, s0')"
      by (cases "copy_answer a0 s0")
    have sub: "set_answer a0 \<subseteq> set constants"
      using Inr by (rule choice_subset)
    have below_s: "\<forall>c\<in>set_answer a0. c < next_ref s"
      using sub wf_s by (simp add: subset_iff)
    have below_s0: "\<forall>c\<in>set_answer a0. c < next_ref s0"
      using sub wf by (simp add: subset_iff)
    have "map_answer (objs s') b = map_answer (objs s) a0"
      by (rule copy_answer_props(1) [OF b below_s])
    also have "\<dots> = map_answer (objs s0) a0"
    proof (rule answer.map_cong)
      fix c assume "c \<in> set_answer a0"
      with sub have "c \<in> set constants" by (simp add: subset_iff)
      with unchanged show "objs s c = objs s0 c" by simp
    qed simp
    also have "\<dots> = map_answer (objs s0') b0"
      by (rule copy_answer_props(1) [OF b0 below_s0, symmetric])
    finally show ?thesis
      using Inr same_choice b b0
      by (simp add: run_query_as_choice returned_def bind_err_def)
  qed
  have fresh: "\<forall>r\<in>set_answer a. r \<notin> set constants \<and> r \<notin> given \<and> next_ref s \<le> r
                \<and> (\<exists>c\<in>set constants. objs s' r = objs s0 c)"
    if run: "run_query constants q s = Inr (a, s')" for a s'
  proof
    fix r assume r: "r \<in> set_answer a"
    from run wf_s obtain a0
      where sub: "set_answer a0 \<subseteq> set constants"
        and copies: "map_answer (objs s') a = map_answer (objs s) a0"
        and new: "\<forall>r\<in>set_answer a. next_ref s \<le> r \<and> r < next_ref s'"
      by (rule run_query_props)
    from r have "objs s' r \<in> set_answer (map_answer (objs s') a)"
      by (simp add: answer.set_map)
    with copies have "objs s' r \<in> objs s ` set_answer a0"
      by (simp add: answer.set_map)
    then obtain c where c: "c \<in> set_answer a0" "objs s' r = objs s c"
      by (rule imageE)
    from c(1) sub have "c \<in> set constants"
      by (simp add: subset_iff)
    with unchanged c(2) have copy: "\<exists>c\<in>set constants. objs s' r = objs s0 c"
      by (intro bexI [of _ c]) simp_all
    from new r have ge: "next_ref s \<le> r"
      by simp
    have not_table: "r \<notin> set constants"
    proof
      assume "r \<in> set constants"
      with wf_s have "r < next_ref s" by simp
      with ge show False by simp
    qed
    have not_given: "r \<notin> given"
    proof
      assume "r \<in> given"
      with given have "r < next_ref s" by simp
      with ge show False by simp
    qed
    from not_table not_given ge copy
    show "r \<notin> set constants \<and> r \<notin> given \<and> next_ref s \<le> r
                \<and> (\<exists>c\<in>set constants. objs s' r = objs s0 c)"
      by simp
  qed
  show ?thesis
  proof (intro conjI allI impI)
    show "\<forall>c\<in>set constants. objs s c = objs s0 c" by (rule unchanged)
    show "returned (run_query constants q s) = returned (run_query constants q s0)"
      by (rule same)
    show "\<forall>r\<in>set_answer a. r \<notin> set constants \<and> r \<notin> given \<and> next_ref s \<le> r
                \<and> (\<exists>c\<in>set constants. objs s' r = objs s0 c)"
      if "run_query constants q s = Inr (a, s')" for a s'
      using that by (rule fresh)
  qed
qed


text \<open>
  The theorem on the excerpt of the table: the caller runs \<open>get("B1")\<close>, overwrites the
  record it was given, and runs \<open>get("B1")\<close> again.
\<close>

lemma get_B1_excerpt:
  "run_query [0, 1, 2, 3] (Get ''B1'') table_excerpt = Inr (One (Some 4), excerpt_after_get)"
  by (simp add: bind_err_def item_def getitem_def table_excerpt_def entry_def
      excerpt_after_get_def dict_copy_def)

theorem queries_return_fresh_copies_witness:
  "next_ref table_excerpt = 4
   \<and> session [0, 1, 2, 3] (table_excerpt, {}) (excerpt_after_change, {4})
   \<and> objs excerpt_after_change 0 = objs table_excerpt 0
   \<and> objs excerpt_after_change 1 = objs table_excerpt 1
   \<and> objs excerpt_after_change 2 = objs table_excerpt 2
   \<and> objs excerpt_after_change 3 = objs table_excerpt 3
   \<and> returned (run_query [0, 1, 2, 3] (Get ''B1'') excerpt_after_change)
       = returned (run_query [0, 1, 2, 3] (Get ''B1'') table_excerpt)"
proof -
  have next_ref: "next_ref table_excerpt = 4"
    by (simp add: table_excerpt_def)
  have wf: "\<forall>c\<in>set [0, 1, 2, 3]. c < next_ref table_excerpt"
    by (simp add: table_excerpt_def)
  have "session [0, 1, 2, 3] (table_excerpt, {})
          (excerpt_after_get, {} \<union> set_answer (One (Some 4)))"
    by (rule session_query [OF session_start get_B1_excerpt])
  then have "session [0, 1, 2, 3] (table_excerpt, {}) (excerpt_after_get, {4})"
    by simp
  then have sess: "session [0, 1, 2, 3] (table_excerpt, {}) (excerpt_after_change, {4})"
    unfolding excerpt_after_change_def by (rule session_mutate) simp
  from next_ref sess queries_return_fresh_copies [OF wf sess, of "Get ''B1''"]
  show ?thesis by simp
qed

lemma get_B1_after_change:
  "returned (run_query [0, 1, 2, 3] (Get ''B1'') excerpt_after_change)
     = Inr (One (Some (Some (entry ''B1'' 27 27 '''' ''core'' ''BRAHIM_NUMBERS[0]''))))"
  by (simp add: returned_def bind_err_def item_def getitem_def table_excerpt_def entry_def
      excerpt_after_get_def excerpt_after_change_def dict_copy_def)

end
